theory Spec2Isabelle
  imports Main
begin

section \<open>Offset codec (storage.go, offsetFromInt and offsetToInt)\<close>

text \<open>
  An offset token is a Go string, modelled as a list of bytes. Byte positions are Go
  \<open>int64\<close> values, modelled as \<open>int\<close>; the codec itself does no arithmetic on them, and
  the parser below clamps to the \<open>int64\<close> range exactly as \<open>strconv.ParseInt\<close> does.
\<close>

type_synonym Offset = string

text \<open>The decimal digits of a natural number, most significant first, as \<open>%d\<close> prints them.\<close>

definition digit_char :: "nat \<Rightarrow> char" where
  "digit_char d = char_of (48 + d)"

fun decimal :: "nat \<Rightarrow> string" where
  "decimal n = (if n < 10 then [digit_char n] else decimal (n div 10) @ [digit_char (n mod 10)])"

declare decimal.simps [simp del]

definition zero_pad :: "nat \<Rightarrow> string \<Rightarrow> string" where
  "zero_pad w s = replicate (w - length s) (CHR ''0'') @ s"

text \<open>
  \<open>fmt.Sprintf("%020d", n)\<close>: the width 20 counts the sign, and the zero padding goes
  between the sign and the digits.
\<close>

definition sprintf_020d :: "int \<Rightarrow> string" where
  "sprintf_020d n =
     (if n < 0 then CHR ''-'' # zero_pad 19 (decimal (nat (- n)))
      else zero_pad 20 (decimal (nat n)))"

definition offsetFromInt :: "int \<Rightarrow> Offset" where
  "offsetFromInt n = sprintf_020d n"

text \<open>
  \<open>strconv.ParseInt(s, 10, 64)\<close> of the Go standard library. It returns a value together
  with an error; \<open>offsetToInt\<close> keeps the value and drops the error, so the value returned
  beside each error matters: 0 beside a syntax error, the nearest \<open>int64\<close> bound beside a
  range error. \<open>ParseUint\<close> reports a range error as soon as the digits read so far
  overflow, before it looks at the characters that follow.
\<close>

datatype num_error = ErrSyntax | ErrRange

definition is_digit :: "char \<Rightarrow> bool" where
  "is_digit c = (48 \<le> (of_char c :: nat) \<and> (of_char c :: nat) \<le> 57)"

definition digit_val :: "char \<Rightarrow> nat" where
  "digit_val c = of_char c - 48"

definition maxUint64 :: nat where
  "maxUint64 = 2 ^ 64 - 1"

fun parseUint_loop :: "nat \<Rightarrow> string \<Rightarrow> nat \<times> num_error option" where
  "parseUint_loop n [] = (n, None)"
| "parseUint_loop n (c # cs) =
     (if \<not> is_digit c then (0, Some ErrSyntax)
      else if n \<ge> maxUint64 div 10 + 1 then (maxUint64, Some ErrRange)
      else if n * 10 + digit_val c > maxUint64 then (maxUint64, Some ErrRange)
      else parseUint_loop (n * 10 + digit_val c) cs)"

definition ParseUint :: "string \<Rightarrow> nat \<times> num_error option" where
  "ParseUint s = (if s = [] then (0, Some ErrSyntax) else parseUint_loop 0 s)"

definition ParseInt :: "string \<Rightarrow> int \<times> num_error option" where
  "ParseInt s =
     (if s = [] then (0, Some ErrSyntax)
      else
        let neg = (hd s = CHR ''-'');
            s1 = (if hd s = CHR ''+'' \<or> hd s = CHR ''-'' then tl s else s);
            (un, err) = ParseUint s1
        in if err = Some ErrSyntax then (0, err)
           else if \<not> neg \<and> un \<ge> 2 ^ 63 then (2 ^ 63 - 1, Some ErrRange)
           else if neg \<and> un > 2 ^ 63 then (- (2 ^ 63), Some ErrRange)
           else (if neg then - int un else int un, None))"

text \<open>\<open>strings.TrimLeft(s, cutset)\<close> for a cutset of single-byte characters.\<close>

definition TrimLeft :: "string \<Rightarrow> string \<Rightarrow> string" where
  "TrimLeft s cutset = dropWhile (\<lambda>c. c \<in> set cutset) s"

text \<open>
  \<open>offsetToInt\<close>. The sentinel \<open>durablestream.ZeroOffset\<close> is a constant of an imported
  package; its value is not part of this repository, so it is a parameter here.
\<close>

definition offsetToInt :: "Offset \<Rightarrow> Offset \<Rightarrow> int" where
  "offsetToInt ZeroOffset off =
     (if off = ZeroOffset \<or> off = ''-1'' then 0
      else fst (ParseInt (TrimLeft off ''0'')))"

subsection \<open>Notions used to state the codec properties\<close>

text \<open>The number a string of decimal digits spells, continuing from \<open>n\<close>.\<close>

fun dec_value :: "nat \<Rightarrow> string \<Rightarrow> nat" where
  "dec_value n [] = n"
| "dec_value n (c # cs) = dec_value (n * 10 + digit_val c) cs"

text \<open>Go's \<open><\<close> on strings: lexicographic comparison of the bytes as unsigned values.\<close>

fun string_less :: "string \<Rightarrow> string \<Rightarrow> bool" where
  "string_less [] [] = False"
| "string_less [] (y # ys) = True"
| "string_less (x # xs) [] = False"
| "string_less (x # xs) (y # ys) =
     (if (of_char x :: nat) < of_char y then True
      else if (of_char y :: nat) < of_char x then False
      else string_less xs ys)"

text \<open>
  The strings that \<open>strconv.ParseInt\<close> rejects with a syntax error: after one optional
  sign there is nothing left, or a character that is not a digit comes while the digits
  before it still fit 64 bits.
\<close>

definition strip_sign :: "string \<Rightarrow> string" where
  "strip_sign s = (if s \<noteq> [] \<and> (hd s = CHR ''+'' \<or> hd s = CHR ''-'') then tl s else s)"

definition syntax_rejected :: "string \<Rightarrow> bool" where
  "syntax_rejected s =
     (strip_sign s = [] \<or>
      (length (takeWhile is_digit (strip_sign s)) < length (strip_sign s) \<and>
       dec_value 0 (takeWhile is_digit (strip_sign s)) \<le> maxUint64))"

section \<open>Strings and paths (Go packages strings and path/filepath)\<close>

definition HasPrefix :: "string \<Rightarrow> string \<Rightarrow> bool" where
  "HasPrefix s pre = (length pre \<le> length s \<and> take (length pre) s = pre)"

definition TrimPrefix :: "string \<Rightarrow> string \<Rightarrow> string" where
  "TrimPrefix s pre = (if HasPrefix s pre then drop (length pre) s else s)"

definition HasSuffix :: "string \<Rightarrow> string \<Rightarrow> bool" where
  "HasSuffix s suf = (length suf \<le> length s \<and> drop (length s - length suf) s = suf)"

definition TrimSuffix :: "string \<Rightarrow> string \<Rightarrow> string" where
  "TrimSuffix s suf = (if HasSuffix s suf then take (length s - length suf) s else s)"

text \<open>
  \<open>filepath.Base\<close> on a system whose separator is the slash: trailing slashes are
  removed, then everything up to the last slash; the empty path gives a dot and a path
  of slashes gives a slash.
\<close>

definition Base :: "string \<Rightarrow> string" where
  "Base p =
     (if p = [] then ''.''
      else
        let p1 = rev (dropWhile (\<lambda>c. c = CHR ''/'') (rev p));
            p2 = rev (takeWhile (\<lambda>c. c \<noteq> CHR ''/'') (rev p1))
        in if p2 = [] then ''/'' else p2)"

text \<open>
  \<open>filepath.Clean\<close> on a system whose separator is the slash. The path is cut at its
  slashes; empty elements and dots are dropped; a double dot removes the element before
  it, unless there is none or it is a double dot itself, in which case the double dot is
  dropped at the root and kept otherwise. The result is a dot when nothing is left.
\<close>

fun join_sep :: "string list \<Rightarrow> string" where
  "join_sep [] = []"
| "join_sep [x] = x"
| "join_sep (x # y # ys) = x @ ''/'' @ join_sep (y # ys)"

fun split_sep :: "string \<Rightarrow> string \<Rightarrow> string list" where
  "split_sep cur [] = [cur]"
| "split_sep cur (c # cs) =
     (if c = CHR ''/'' then cur # split_sep [] cs else split_sep (cur @ [c]) cs)"

fun clean_elems :: "bool \<Rightarrow> string list \<Rightarrow> string list \<Rightarrow> string list" where
  "clean_elems rooted out [] = out"
| "clean_elems rooted out (e # es) =
     (if e = [] \<or> e = ''.'' then clean_elems rooted out es
      else if e = ''..'' then
        (if out \<noteq> [] \<and> last out \<noteq> ''..'' then clean_elems rooted (butlast out) es
         else if rooted then clean_elems rooted out es
         else clean_elems rooted (out @ [e]) es)
      else clean_elems rooted (out @ [e]) es)"

definition Clean :: "string \<Rightarrow> string" where
  "Clean p =
     (if p = [] then ''.''
      else
        let rooted = (hd p = CHR ''/'');
            out = clean_elems rooted [] (split_sep [] p);
            r = (if rooted then ''/'' else []) @ join_sep out
        in if r = [] then ''.'' else r)"

text \<open>
  \<open>filepath.Join\<close>: the elements from the first non-empty one on, separated by slashes,
  then cleaned; the empty path when every element is empty.
\<close>

definition Join :: "string list \<Rightarrow> string" where
  "Join elems =
     (let es = dropWhile (\<lambda>e. e = []) elems
      in if es = [] then [] else Clean (join_sep es))"

section \<open>The storage and its environment (storage.go)\<close>

datatype error =
  ErrReadOnly | ErrStreamNotFound | ErrWatcher | ErrOpen | ErrSeek | ErrStat | ErrScan

text \<open>
  What the operating system and the imported packages answer. \<open>files\<close> gives the
  contents of the regular file at a path (\<open>os.Open\<close>, \<open>os.Stat\<close>); \<open>glob\<close> gives the
  result of \<open>filepath.Glob (filepath.Join elems)\<close>, \<open>None\<close> for a malformed pattern;
  \<open>walk root\<close> gives the calls that \<open>filepath.WalkDir root\<close> makes to its callback as
  long as the callback asks it to go on, in order: the path, whether the entry is a
  directory, and whether the call reports an error. \<open>seekLimit\<close> is the largest
  position that a seek on a file may ask for (on Linux, the largest file size of the file
  system; a seek beyond it fails). \<open>ZeroOffset\<close> is the sentinel constant of package
  durablestream, and \<open>watcherOK\<close> says whether \<open>fsnotify.NewWatcher\<close> succeeds.
\<close>

datatype walk_entry = WalkEntry (path: string) (isDir: bool) (walkErr: bool)

record env =
  ZeroOffset :: Offset
  watcherOK :: bool
  seekLimit :: nat
  files :: "string \<rightharpoonup> string"
  glob :: "string list \<Rightarrow> string list option"
  walk :: "string \<Rightarrow> walk_entry list"

text \<open>
  A notification channel of capacity one: the offset it holds, if any, and whether it has
  been closed. Channels live in a store and are named by numbers, so that the registry
  can hold the same channel that the subscriber reads from.
\<close>

type_synonym chan_id = nat

record chan =
  buffer :: "Offset option"
  isClosed :: bool

record ClaudeStorage =
  claudeDir :: string
  projectsDir :: string
  watched :: "string list"
  subscribers :: "string \<rightharpoonup> chan_id list"
  fileIndex :: "string \<rightharpoonup> string"
  chans :: "chan_id \<rightharpoonup> chan"
  nextChan :: chan_id

text \<open>Reading a Go map of slices at a key that is absent gives the nil slice.\<close>

definition subscribersOf :: "ClaudeStorage \<Rightarrow> string \<Rightarrow> chan_id list" where
  "subscribersOf s streamID = (case subscribers s streamID of None \<Rightarrow> [] | Some cs \<Rightarrow> cs)"

text \<open>
  \<open>filepath.WalkDir\<close> with a callback that returns either nil or \<open>filepath.SkipAll\<close>:
  the callback is run on the entries in order, threading its state, and the walk stops
  at once when the callback answers \<open>SkipAll\<close> (the second component).
\<close>

fun WalkDir :: "('s \<Rightarrow> walk_entry \<Rightarrow> 's \<times> bool) \<Rightarrow> 's \<Rightarrow> walk_entry list \<Rightarrow> 's" where
  "WalkDir fn s [] = s"
| "WalkDir fn s (e # es) =
     (case fn s e of (s', skipAll) \<Rightarrow> if skipAll then s' else WalkDir fn s' es)"

definition indexFiles_fn :: "ClaudeStorage \<Rightarrow> walk_entry \<Rightarrow> ClaudeStorage \<times> bool" where
  "indexFiles_fn s e =
     (if walkErr e then (s, False)
      else if isDir e then (s\<lparr>watched := watched s @ [path e]\<rparr>, False)
      else if HasSuffix (path e) ''.jsonl'' then
        (s\<lparr>fileIndex := (fileIndex s)(TrimSuffix (Base (path e)) ''.jsonl'' \<mapsto> path e)\<rparr>, False)
      else (s, False))"

definition indexFiles :: "env \<Rightarrow> ClaudeStorage \<Rightarrow> ClaudeStorage" where
  "indexFiles fs s = WalkDir indexFiles_fn s (walk fs (projectsDir s))"

text \<open>
  \<open>NewClaudeStorage\<close>. The history stream is registered before the scan. The scan's
  callbacks never return an error, so \<open>indexFiles\<close> returns none and the constructor can
  only fail when no watcher can be made.
\<close>

definition NewClaudeStorage :: "env \<Rightarrow> string \<Rightarrow> error + ClaudeStorage" where
  "NewClaudeStorage fs dir =
     (if \<not> watcherOK fs then Inl ErrWatcher
      else Inr (indexFiles fs
        \<lparr>claudeDir = dir,
         projectsDir = Join [dir, ''projects''],
         watched = [dir],
         subscribers = Map.empty,
         fileIndex = [''_history'' \<mapsto> Join [dir, ''history.jsonl'']],
         chans = Map.empty,
         nextChan = 0\<rparr>))"

definition getTailOffset :: "env \<Rightarrow> string \<Rightarrow> Offset \<times> error option" where
  "getTailOffset fs p =
     (case files fs p of
        None \<Rightarrow> (ZeroOffset fs, Some ErrStat)
      | Some contents \<Rightarrow> (offsetFromInt (int (length contents)), None))"

text \<open>
  The watch loop's treatment of one event. The send is the non-blocking one of the
  source: an open channel with an empty buffer takes the offset, a full one is left as
  it is. A channel of the registry is never closed: unsubscribing removes it from the
  registry before closing it.
\<close>

datatype Op = OpCreate | OpWrite | OpRemove | OpRename | OpChmod

record Event =
  Name :: string
  Ops :: "Op list"

definition trySend :: "Offset \<Rightarrow> chan_id \<Rightarrow> ClaudeStorage \<Rightarrow> ClaudeStorage" where
  "trySend tail ch s =
     (case chans s ch of
        None \<Rightarrow> s
      | Some c \<Rightarrow>
          if buffer c = None \<and> \<not> isClosed c
          then s\<lparr>chans := (chans s)(ch \<mapsto> c\<lparr>buffer := Some tail\<rparr>)\<rparr>
          else s)"

definition watchLoop_event :: "env \<Rightarrow> Event \<Rightarrow> ClaudeStorage \<Rightarrow> ClaudeStorage" where
  "watchLoop_event fs event s =
     (let historyPath = Join [claudeDir s, ''history.jsonl''] in
      if OpWrite \<in> set (Ops event) \<or> OpCreate \<in> set (Ops event) then
        if HasSuffix (Name event) ''.jsonl'' then
          let (streamID, s1) =
                (if Name event = historyPath then (''_history'', s)
                 else
                   let streamID = TrimSuffix (Base (Name event)) ''.jsonl''
                   in (streamID, s\<lparr>fileIndex := (fileIndex s)(streamID \<mapsto> Name event)\<rparr>));
              tail = fst (getTailOffset fs (Name event))
          in fold (trySend tail) (subscribersOf s1 streamID) s1
        else s
      else s)"

definition getPath_fn :: "string \<Rightarrow> string \<Rightarrow> walk_entry \<Rightarrow> string \<times> bool" where
  "getPath_fn streamID found e =
     (if walkErr e \<or> isDir e then (found, False)
      else if Base (path e) = streamID @ ''.jsonl'' then (path e, True)
      else (found, False))"

definition getPath :: "env \<Rightarrow> ClaudeStorage \<Rightarrow> string \<Rightarrow> (error + string) \<times> ClaudeStorage" where
  "getPath fs s streamID0 =
     (let streamID = TrimPrefix streamID0 ''/'' in
      case fileIndex s streamID of
        Some p \<Rightarrow> (Inr p, s)
      | None \<Rightarrow>
          (case glob fs [projectsDir s, ''**'', streamID @ ''.jsonl''] of
             Some (m # ms) \<Rightarrow> (Inr m, s\<lparr>fileIndex := (fileIndex s)(streamID \<mapsto> m)\<rparr>)
           | _ \<Rightarrow>
               let found = WalkDir (getPath_fn streamID) [] (walk fs (projectsDir s))
               in if found \<noteq> []
                  then (Inr found, s\<lparr>fileIndex := (fileIndex s)(streamID \<mapsto> found)\<rparr>)
                  else (Inl ErrStreamNotFound, s)))"

text \<open>
  The mutating calls. Each returns the pair of the source (a value and the error) and the
  storage it was given; none of them reads its arguments.
\<close>

definition Create :: "ClaudeStorage \<Rightarrow> string \<Rightarrow> 'cfg \<Rightarrow> (bool \<times> error option) \<times> ClaudeStorage" where
  "Create s streamID cfg = ((False, Some ErrReadOnly), s)"

definition Append ::
  "env \<Rightarrow> ClaudeStorage \<Rightarrow> string \<Rightarrow> string \<Rightarrow> string \<Rightarrow> (Offset \<times> error option) \<times> ClaudeStorage" where
  "Append fs s streamID data seq = ((ZeroOffset fs, Some ErrReadOnly), s)"

definition AppendFrom ::
  "env \<Rightarrow> ClaudeStorage \<Rightarrow> string \<Rightarrow> 'r \<Rightarrow> string \<Rightarrow> (Offset \<times> error option) \<times> ClaudeStorage" where
  "AppendFrom fs s streamID r seq = ((ZeroOffset fs, Some ErrReadOnly), s)"

definition Delete :: "ClaudeStorage \<Rightarrow> string \<Rightarrow> error option \<times> ClaudeStorage" where
  "Delete s streamID = (Some ErrReadOnly, s)"

record StreamInfo =
  ContentType :: string
  InfoNextOffset :: Offset

definition Head :: "env \<Rightarrow> ClaudeStorage \<Rightarrow> string \<Rightarrow> (error + StreamInfo) \<times> ClaudeStorage" where
  "Head fs s streamID =
     (case getPath fs s streamID of
        (Inl e, s1) \<Rightarrow> (Inl e, s1)
      | (Inr p, s1) \<Rightarrow>
          (case files fs p of
             None \<Rightarrow> (Inl ErrStat, s1)
           | Some contents \<Rightarrow>
               (Inr \<lparr>ContentType = ''application/json'',
                     InfoNextOffset = offsetFromInt (int (length contents))\<rparr>, s1)))"

section \<open>Reading a stream (storage.go, Read)\<close>

text \<open>
  \<open>bufio.Scanner\<close> with its default split function \<open>ScanLines\<close>, on the bytes not yet
  read. One call of \<open>Scan\<close> ends the scan when no byte is left; otherwise the line is
  what precedes the first newline (or everything, when there is none), the token is the
  line without one trailing carriage return, and the line and its newline are consumed.
  The scanner fails with \<open>ErrTooLong\<close> when the line does not fit the buffer, whose
  largest size the source sets to 16 MiB: a line of \<open>maxTokenSize\<close> bytes or more. (The
  failure of the scanner's first read is part of \<open>Read\<close> below.)
\<close>

definition newline :: char where
  "newline = CHR 0x0A"

definition carriageReturn :: char where
  "carriageReturn = CHR 0x0D"

definition dropCR :: "string \<Rightarrow> string" where
  "dropCR line = (if line \<noteq> [] \<and> last line = carriageReturn then butlast line else line)"

definition maxTokenSize :: nat where
  "maxTokenSize = 16 * 1024 * 1024"

datatype scan = Token string string | EOF | TooLong

definition Scan :: "string \<Rightarrow> scan" where
  "Scan unread =
     (if unread = [] then EOF
      else
        let line = takeWhile (\<lambda>c. c \<noteq> newline) unread
        in if maxTokenSize \<le> length line then TooLong
           else Token (dropCR line) (drop (Suc (length line)) unread))"

record StoredMessage =
  Data :: string
  Offset :: Offset

record ReadResult =
  Messages :: "StoredMessage list"
  NextOffset :: Offset
  TailOffset :: Offset

text \<open>
  Arithmetic on \<open>int64\<close> (and on \<open>int\<close>, which has 64 bits on the platforms the
  program is built for) wraps around.
\<close>

definition wrap64 :: "int \<Rightarrow> int" where
  "wrap64 x = (x + 2 ^ 63) mod 2 ^ 64 - 2 ^ 63"

text \<open>
  The loop of \<open>Read\<close>, on the limit, the bytes not yet scanned and the variables
  \<open>messages\<close>, \<open>currentOffset\<close> and \<open>bytesRead\<close>. The scanner reads the next line before
  the budget is compared. The loop ends with the messages and the current offset, or with
  the scanner's error.
\<close>

function Read_loop ::
  "int \<Rightarrow> string \<Rightarrow> StoredMessage list \<Rightarrow> int \<Rightarrow> int \<Rightarrow> error + StoredMessage list \<times> int" where
  "Read_loop limit unread messages currentOffset bytesRead =
     (case Scan unread of
        EOF \<Rightarrow> Inr (messages, currentOffset)
      | TooLong \<Rightarrow> Inl ErrScan
      | Token line rest \<Rightarrow>
          let lineLen = wrap64 (int (length line) + 1)
          in if wrap64 (bytesRead + int (length line)) > limit \<and> length messages > 0
             then Inr (messages, currentOffset)
             else
               let currentOffset' = wrap64 (currentOffset + lineLen)
               in Read_loop limit rest
                    (messages @ [\<lparr>Data = line, Offset = offsetFromInt currentOffset'\<rparr>])
                    currentOffset'
                    (wrap64 (bytesRead + int (length line))))"
  by pat_completeness auto
termination
  by (relation "measure (\<lambda>(limit, unread, messages, currentOffset, bytesRead). length unread)")
     (auto simp: Scan_def Let_def split: if_splits)

declare Read_loop.simps [simp del]

text \<open>
  \<open>Read\<close>. Opening fails when there is no file at the path. Seeking fails for a negative
  position and for one beyond the seek limit of the environment; it succeeds for any
  other, also beyond the end of the file, where nothing is left to read. The size of the
  open file is that of the contents read; the step that asks for it is taken to succeed.

  The scanner starts with the buffer the source gives it, of \<open>startBufSize\<close> bytes, and
  its first read asks the system for that many bytes at the start position. The system
  refuses a read whose position plus length exceeds the largest \<open>int64\<close>; the scanner
  then has no token and reports the error, and \<open>Read\<close> returns it like any other error of
  the scan. Reads after the first are at positions inside the file and are taken to
  succeed.
\<close>

definition startBufSize :: nat where
  "startBufSize = 64 * 1024"

definition maxInt64 :: int where
  "maxInt64 = 2 ^ 63 - 1"

definition Read ::
  "env \<Rightarrow> ClaudeStorage \<Rightarrow> string \<Rightarrow> Offset \<Rightarrow> int \<Rightarrow> (error + ReadResult) \<times> ClaudeStorage" where
  "Read fs s streamID offset limit =
     (case getPath fs s streamID of
        (Inl e, s1) \<Rightarrow> (Inl e, s1)
      | (Inr p, s1) \<Rightarrow>
          (case files fs p of
             None \<Rightarrow> (Inl ErrOpen, s1)
           | Some contents \<Rightarrow>
               let startOffset = offsetToInt (ZeroOffset fs) offset
               in if startOffset < 0 \<or> int (seekLimit fs) < startOffset then (Inl ErrSeek, s1)
                  else
                    let tailOffset = offsetFromInt (int (length contents))
                    in if maxInt64 < startOffset + int startBufSize then (Inl ErrScan, s1)
                       else
                         (case Read_loop limit (drop (nat startOffset) contents) [] startOffset 0 of
                            Inl e \<Rightarrow> (Inl e, s1)
                          | Inr (messages, currentOffset) \<Rightarrow>
                              let nextOffset =
                                    (if length messages = 0 then offset
                                     else offsetFromInt currentOffset)
                              in (Inr \<lparr>Messages = messages, NextOffset = nextOffset,
                                       TailOffset = tailOffset\<rparr>, s1))))"

section \<open>Subscriptions (storage.go, Subscribe)\<close>

definition Subscribe ::
  "env \<Rightarrow> ClaudeStorage \<Rightarrow> string \<Rightarrow> Offset \<Rightarrow> (error + chan_id) \<times> ClaudeStorage" where
  "Subscribe fs s streamID0 offset =
     (let streamID = TrimPrefix streamID0 ''/'' in
      case getPath fs s streamID of
        (Inl e, s1) \<Rightarrow> (Inl e, s1)
      | (Inr p, s1) \<Rightarrow>
          let ch = nextChan s1
          in (Inr ch,
              s1\<lparr>chans := (chans s1)(ch \<mapsto> \<lparr>buffer = None, isClosed = False\<rparr>),
                 nextChan := Suc ch,
                 subscribers := (subscribers s1)(streamID \<mapsto> subscribersOf s1 streamID @ [ch])\<rparr>))"

text \<open>
  What the goroutine started by \<open>Subscribe\<close> does once the caller's context is done:
  the first occurrence of the channel leaves the registry entry, then the channel is
  closed.
\<close>

definition unsubscribe :: "ClaudeStorage \<Rightarrow> string \<Rightarrow> chan_id \<Rightarrow> ClaudeStorage" where
  "unsubscribe s streamID ch =
     (let s1 = (if ch \<in> set (subscribersOf s streamID)
                then s\<lparr>subscribers := (subscribers s)(streamID \<mapsto> remove1 ch (subscribersOf s streamID))\<rparr>
                else s)
      in case chans s1 ch of
           None \<Rightarrow> s1
         | Some c \<Rightarrow> s1\<lparr>chans := (chans s1)(ch \<mapsto> c\<lparr>isClosed := True\<rparr>)\<rparr>)"

text \<open>A subscriber taking the pending offset out of its channel.\<close>

definition receive :: "ClaudeStorage \<Rightarrow> chan_id \<Rightarrow> Offset option \<times> ClaudeStorage" where
  "receive s ch =
     (case chans s ch of
        None \<Rightarrow> (None, s)
      | Some c \<Rightarrow> (buffer c, s\<lparr>chans := (chans s)(ch \<mapsto> c\<lparr>buffer := None\<rparr>)\<rparr>))"

section \<open>Runs of the storage\<close>

text \<open>
  The operations that can act on a running storage, each an atomic step: the calls of
  the storage interface, the treatment of a watch event, the end of a subscription and a
  subscriber's receive. The environment is given anew at every step, since files come
  and go between steps.
\<close>

datatype ('cfg, 'r) call =
    CallCreate string 'cfg
  | CallAppend string string string
  | CallAppendFrom string 'r string
  | CallDelete string
  | CallHead string
  | CallRead string Offset int
  | CallSubscribe string Offset
  | CallGetPath string
  | Unsubscribe string chan_id
  | Receive chan_id
  | WatchEvent Event

fun exec :: "env \<Rightarrow> ('cfg, 'r) call \<Rightarrow> ClaudeStorage \<Rightarrow> ClaudeStorage" where
  "exec fs (CallCreate streamID cfg) s = snd (Create s streamID cfg)"
| "exec fs (CallAppend streamID data seq) s = snd (Append fs s streamID data seq)"
| "exec fs (CallAppendFrom streamID r seq) s = snd (AppendFrom fs s streamID r seq)"
| "exec fs (CallDelete streamID) s = snd (Delete s streamID)"
| "exec fs (CallHead streamID) s = snd (Head fs s streamID)"
| "exec fs (CallRead streamID offset limit) s = snd (Read fs s streamID offset limit)"
| "exec fs (CallSubscribe streamID offset) s = snd (Subscribe fs s streamID offset)"
| "exec fs (CallGetPath streamID) s = snd (getPath fs s streamID)"
| "exec fs (Unsubscribe streamID ch) s = unsubscribe s streamID ch"
| "exec fs (Receive ch) s = snd (receive s ch)"
| "exec fs (WatchEvent event) s = watchLoop_event fs event s"

fun run :: "(env \<times> ('cfg, 'r) call) list \<Rightarrow> ClaudeStorage \<Rightarrow> ClaudeStorage" where
  "run [] s = s"
| "run ((fs, c) # cs) s = run cs (exec fs c s)"


section \<open>Notions used to state the storage properties\<close>

text \<open>
  The entries at which the callback of \<open>getPath\<close> stops: a call without an error, for an
  entry that is not a directory and whose base name is the stream id plus the extension.
\<close>

definition regular_named :: "string \<Rightarrow> walk_entry \<Rightarrow> bool" where
  "regular_named sid e = (\<not> walkErr e \<and> \<not> isDir e \<and> Base (path e) = sid @ ''.jsonl'')"

text \<open>An index is the one before, or the one before with one entry set.\<close>

definition upsert :: "ClaudeStorage \<Rightarrow> ClaudeStorage \<Rightarrow> bool" where
  "upsert s s' =
     (fileIndex s' = fileIndex s \<or> (\<exists>streamID p. fileIndex s' = (fileIndex s)(streamID \<mapsto> p)))"

subsection \<open>Notions used to state the properties of Read\<close>

text \<open>
  The lines of a byte string as the scanner cuts them: each runs up to the next newline,
  and what follows the last newline is a line when it is not empty. \<open>scan_lines\<close> are the
  tokens the scanner hands out for them, without one trailing carriage return.
\<close>

function raw_lines :: "string \<Rightarrow> string list" where
  "raw_lines unread =
     (if unread = [] then []
      else takeWhile (\<lambda>c. c \<noteq> newline) unread
           # raw_lines (drop (Suc (length (takeWhile (\<lambda>c. c \<noteq> newline) unread))) unread))"
  by pat_completeness auto
termination
  by (relation "measure length") auto

declare raw_lines.simps [simp del]

definition scan_lines :: "string \<Rightarrow> string list" where
  "scan_lines unread = map dropCR (raw_lines unread)"

text \<open>The payload of some lines: the sum of their lengths, newlines not counted.\<close>

definition payload :: "string list \<Rightarrow> int" where
  "payload ts = (\<Sum>t\<leftarrow>ts. int (length t))"

text \<open>
  How many of the lines a reader takes that stops before a line exactly when the bytes
  taken so far plus that line exceed the limit and something was taken already; and the
  messages for lines that start at a given position, each with the position after its
  own line and one more byte.
\<close>

fun count_taken :: "int \<Rightarrow> bool \<Rightarrow> int \<Rightarrow> string list \<Rightarrow> nat" where
  "count_taken limit some bytesRead [] = 0"
| "count_taken limit some bytesRead (t # ts) =
     (if bytesRead + int (length t) > limit \<and> some then 0
      else Suc (count_taken limit True (bytesRead + int (length t)) ts))"

fun build :: "int \<Rightarrow> string list \<Rightarrow> StoredMessage list" where
  "build cur [] = []"
| "build cur (t # ts) =
     \<lparr>Data = t, Offset = offsetFromInt (cur + int (length t) + 1)\<rparr>
     # build (cur + int (length t) + 1) ts"

text \<open>The file that consists exactly of the given records, each followed by a newline.\<close>

definition file_of :: "string list \<Rightarrow> string" where
  "file_of rs = concat (map (\<lambda>r. r @ [newline]) rs)"

subsection \<open>A small environment and storage for concrete instances\<close>

text \<open>
  One stream file two directory levels below the projects directory, which the one-level
  pattern does not reach, and a storage that has indexed nothing but the history stream.
\<close>

definition demo_fs :: env where
  "demo_fs =
     \<lparr>ZeroOffset = ''-1'', watcherOK = True, seekLimit = 17592186040320,
      files = [''/c/projects/p/a/u1.jsonl'' \<mapsto> ''{x:1}'' @ [newline]],
      glob = (\<lambda>elems. Some []),
      walk = (\<lambda>root.
        [WalkEntry ''/c/projects'' True False,
         WalkEntry ''/c/projects/p'' True False,
         WalkEntry ''/c/projects/p/a'' True False,
         WalkEntry ''/c/projects/p/a/u1.jsonl'' False False])\<rparr>"

definition demo_storage :: ClaudeStorage where
  "demo_storage =
     \<lparr>claudeDir = ''/c'', projectsDir = ''/c/projects'', watched = [''/c''],
      subscribers = Map.empty, fileIndex = [''_history'' \<mapsto> ''/c/history.jsonl''],
      chans = Map.empty, nextChan = 0\<rparr>"

text \<open>
  A record as long as the scanner's limit, and environments whose history file holds it,
  alone or after a short record; a file of three short records; and a file of two records
  that end in a carriage return.
\<close>

definition big_record :: string where
  "big_record = replicate maxTokenSize (CHR ''a'')"

definition long_line_fs :: env where
  "long_line_fs =
     \<lparr>ZeroOffset = ''-1'', watcherOK = True, seekLimit = 17592186040320,
      files = [''/c/history.jsonl'' \<mapsto> file_of [big_record]],
      glob = (\<lambda>elems. Some []),
      walk = (\<lambda>root. [])\<rparr>"


definition three_fs :: env where
  "three_fs =
     \<lparr>ZeroOffset = ''-1'', watcherOK = True, seekLimit = 17592186040320,
      files = [''/c/history.jsonl'' \<mapsto> file_of [''{x:1}'', ''{y:22}'', ''{z:333}'']],
      glob = (\<lambda>elems. Some []),
      walk = (\<lambda>root. [])\<rparr>"

definition crlf_fs :: env where
  "crlf_fs =
     \<lparr>ZeroOffset = ''-1'', watcherOK = True, seekLimit = 17592186040320,
      files = [''/c/history.jsonl'' \<mapsto> file_of [[CHR ''a'', carriageReturn], [CHR ''b'', carriageReturn]]],
      glob = (\<lambda>elems. Some []),
      walk = (\<lambda>root. [])\<rparr>"

section \<open>Properties of the offset codec\<close>

lemma decimal_small: "n < 10 \<Longrightarrow> decimal n = [digit_char n]"
  by (subst decimal.simps) simp

lemma decimal_large: "\<not> n < 10 \<Longrightarrow> decimal n = decimal (n div 10) @ [digit_char (n mod 10)]"
  by (subst decimal.simps) simp

lemma of_char_digit_char: "d < 10 \<Longrightarrow> (of_char (digit_char d) :: nat) = 48 + d"
  by (simp add: digit_char_def)

lemma is_digit_digit_char: "d < 10 \<Longrightarrow> is_digit (digit_char d)"
  by (simp add: is_digit_def of_char_digit_char)

lemma digit_val_digit_char: "d < 10 \<Longrightarrow> digit_val (digit_char d) = d"
  by (simp add: digit_val_def of_char_digit_char)

lemma is_digit_zero: "is_digit (CHR ''0'')"
  by (simp add: is_digit_def)

lemma digit_val_zero: "digit_val (CHR ''0'') = 0"
  by (simp add: digit_val_def)

lemma digit_char_eq_zero: "d < 10 \<Longrightarrow> digit_char d = CHR ''0'' \<longleftrightarrow> d = 0"
proof -
  assume d: "d < 10"
  have "digit_char d = CHR ''0'' \<longleftrightarrow> (of_char (digit_char d) :: nat) = of_char (CHR ''0'')"
    by (simp only: of_char_eq_iff)
  also have "\<dots> \<longleftrightarrow> d = 0" using d by (simp add: of_char_digit_char)
  finally show ?thesis .
qed

lemma dec_value_append: "dec_value n (xs @ ys) = dec_value (dec_value n xs) ys"
  by (induction xs arbitrary: n) simp_all

lemma dec_value_mono: "n \<le> dec_value n cs"
proof (induction cs arbitrary: n)
  case Nil show ?case by simp
next
  case (Cons c cs)
  have "n \<le> n * 10 + digit_val c" by simp
  also have "\<dots> \<le> dec_value (n * 10 + digit_val c) cs" by (rule Cons.IH)
  finally show ?case by simp
qed

lemma dec_value_shift: "dec_value n cs = n * 10 ^ length cs + dec_value 0 cs"
proof (induction cs arbitrary: n)
  case Nil show ?case by simp
next
  case (Cons c cs)
  have "dec_value n (c # cs) = (n * 10 + digit_val c) * 10 ^ length cs + dec_value 0 cs"
    using Cons.IH [of "n * 10 + digit_val c"] by simp
  moreover have "dec_value 0 (c # cs) = digit_val c * 10 ^ length cs + dec_value 0 cs"
    using Cons.IH [of "digit_val c"] by simp
  ultimately show ?case by (simp add: algebra_simps)
qed

lemma digit_val_less: "is_digit c \<Longrightarrow> digit_val c < 10"
  by (auto simp: is_digit_def digit_val_def)

lemma dec_value_bound: "list_all is_digit cs \<Longrightarrow> dec_value 0 cs < 10 ^ length cs"
proof (induction cs)
  case Nil show ?case by simp
next
  case (Cons c cs)
  then have d: "digit_val c < 10" and v: "dec_value 0 cs < 10 ^ length cs"
    by (simp_all add: digit_val_less)
  have "dec_value 0 (c # cs) = digit_val c * 10 ^ length cs + dec_value 0 cs"
    using dec_value_shift [of "digit_val c" cs] by simp
  also have "\<dots> < digit_val c * 10 ^ length cs + 10 ^ length cs" using v by simp
  also have "\<dots> = (digit_val c + 1) * 10 ^ length cs" by (simp add: algebra_simps)
  also have "\<dots> \<le> 10 * 10 ^ length cs" using d by (intro mult_right_mono) simp_all
  finally show ?case by simp
qed

lemma decimal_digits: "list_all is_digit (decimal n)"
proof (induction n rule: decimal.induct)
  case (1 n)
  show ?case
  proof (cases "n < 10")
    case True then show ?thesis by (simp add: decimal_small is_digit_digit_char)
  next
    case False
    then have "list_all is_digit (decimal (n div 10))" by (rule "1.IH")
    with False show ?thesis
      by (simp add: decimal_large is_digit_digit_char)
  qed
qed

lemma dec_value_decimal: "dec_value 0 (decimal n) = n"
proof (induction n rule: decimal.induct)
  case (1 n)
  show ?case
  proof (cases "n < 10")
    case True then show ?thesis by (simp add: decimal_small digit_val_digit_char)
  next
    case False
    then have "dec_value 0 (decimal (n div 10)) = n div 10" by (rule "1.IH")
    with False show ?thesis
      by (simp add: decimal_large dec_value_append digit_val_digit_char)
  qed
qed

lemma decimal_nonempty: "decimal n \<noteq> []"
  by (cases "n < 10") (simp_all add: decimal_small decimal_large)

lemma length_decimal: "0 < w \<Longrightarrow> n < 10 ^ w \<Longrightarrow> length (decimal n) \<le> w"
proof (induction n arbitrary: w rule: decimal.induct)
  case (1 n)
  show ?case
  proof (cases "n < 10")
    case True with "1.prems" show ?thesis by (simp add: decimal_small)
  next
    case False
    from "1.prems" obtain v where w: "w = Suc v" by (cases w) auto
    with False "1.prems" have "0 < v" by (cases v) auto
    moreover from w "1.prems" have "n div 10 < 10 ^ v"
      by (simp add: less_mult_imp_div_less mult.commute)
    ultimately have "length (decimal (n div 10)) \<le> v" using False "1.IH" by blast
    with False w show ?thesis by (simp add: decimal_large)
  qed
qed

lemma hd_decimal: "0 < n \<Longrightarrow> hd (decimal n) \<noteq> CHR ''0''"
proof (induction n rule: decimal.induct)
  case (1 n)
  show ?case
  proof (cases "n < 10")
    case True with "1.prems" show ?thesis by (simp add: decimal_small digit_char_eq_zero)
  next
    case False
    then have "0 < n div 10" by (simp add: div_greater_zero_iff)
    with False have "hd (decimal (n div 10)) \<noteq> CHR ''0''" by (rule "1.IH")
    with False show ?thesis
      by (simp add: decimal_large decimal_nonempty)
  qed
qed

lemma parseUint_loop_eq:
  "n \<le> maxUint64 \<Longrightarrow>
   parseUint_loop n cs =
     (if dec_value n (takeWhile is_digit cs) > maxUint64 then (maxUint64, Some ErrRange)
      else if length (takeWhile is_digit cs) < length cs then (0, Some ErrSyntax)
      else (dec_value n cs, None))"
proof (induction cs arbitrary: n)
  case Nil
  then show ?case by simp
next
  case (Cons c cs)
  let ?m = "n * 10 + digit_val c"
  show ?case
  proof (cases "is_digit c")
    case False
    with Cons.prems show ?thesis by simp
  next
    case dig: True
    show ?thesis
    proof (cases "maxUint64 < ?m")
      case True
      have "?m \<le> dec_value ?m (takeWhile is_digit cs)" by (rule dec_value_mono)
      with True have big: "maxUint64 < dec_value ?m (takeWhile is_digit cs)" by simp
      from dig True big show ?thesis by simp
    next
      case False
      then have le: "?m \<le> maxUint64" by simp
      then have "\<not> maxUint64 div 10 + 1 \<le> n" by (simp add: maxUint64_def)
      moreover have "length (takeWhile is_digit cs) \<le> length cs" by (rule length_takeWhile_le)
      ultimately show ?thesis using dig False Cons.IH [OF le] by simp
    qed
  qed
qed

lemma TrimLeft_zero_pad:
  assumes "hd s \<noteq> CHR ''0''" "s \<noteq> []"
  shows "TrimLeft (zero_pad w s) ''0'' = s"
  using assms by (cases s) (simp_all add: TrimLeft_def zero_pad_def dropWhile_append3)

lemma TrimLeft_zeros: "TrimLeft (replicate k (CHR ''0'')) ''0'' = []"
  by (simp add: TrimLeft_def)

lemma decimal_zero: "decimal 0 = ''0''"
  by (simp add: decimal_small digit_char_eq_zero)

lemma ParseUint_decimal:
  assumes "n \<le> maxUint64"
  shows "ParseUint (decimal n) = (n, None)"
proof -
  have all: "takeWhile is_digit (decimal n) = decimal n"
    using decimal_digits [of n] by (simp add: takeWhile_eq_all_conv list_all_iff)
  have "parseUint_loop 0 (decimal n) = (n, None)"
    using assms by (subst parseUint_loop_eq) (simp_all add: all dec_value_decimal)
  then show ?thesis by (simp add: ParseUint_def decimal_nonempty)
qed

lemma hd_decimal_digit: "is_digit (hd (decimal n))"
  using decimal_digits [of n] decimal_nonempty [of n]
  by (cases "decimal n") simp_all

lemma is_digit_not_sign: "is_digit c \<Longrightarrow> c \<noteq> CHR ''+'' \<and> c \<noteq> CHR ''-''"
  by (auto simp: is_digit_def)

lemma ParseInt_decimal:
  assumes "n < 2 ^ 63"
  shows "ParseInt (decimal n) = (int n, None)"
proof -
  from assms have "n \<le> maxUint64" by (simp add: maxUint64_def)
  then have u: "ParseUint (decimal n) = (n, None)" by (rule ParseUint_decimal)
  have s: "hd (decimal n) \<noteq> CHR ''+''" "hd (decimal n) \<noteq> CHR ''-''"
    using is_digit_not_sign [OF hd_decimal_digit [of n]] by simp_all
  show ?thesis using assms by (simp add: ParseInt_def decimal_nonempty s u)
qed

lemma length_zero_pad: "length s \<le> w \<Longrightarrow> length (zero_pad w s) = w"
  by (simp add: zero_pad_def)

lemma length_offsetFromInt:
  assumes "0 \<le> p" "p < 2 ^ 63"
  shows "length (offsetFromInt p) = 20"
proof -
  from assms have "nat p < 2 ^ 63" by (simp add: nat_less_iff)
  also have "\<dots> < (10::nat) ^ 20" by simp
  finally have "length (decimal (nat p)) \<le> 20" by (intro length_decimal) simp_all
  with assms show ?thesis by (simp add: offsetFromInt_def sprintf_020d_def length_zero_pad)
qed

text \<open>
  Claim C3. For every byte position \<open>p\<close> with \<open>0 \<le> p < 2^63\<close>, decoding the encoding of
  \<open>p\<close> gives \<open>p\<close> back; this includes \<open>p = 0\<close>, whose encoding is twenty zeros. The
  sentinel is a parameter: the property needs that the sentinel is not itself the encoding
  of a positive position (a token equal to the sentinel decodes to 0 before any parsing).
\<close>

theorem offset_roundtrip:
  assumes "0 \<le> p" and "p < 2 ^ 63"
    and zo: "offsetFromInt p = zo \<longrightarrow> p = 0"
  shows "offsetToInt zo (offsetFromInt p) = p"
proof (cases "offsetFromInt p = zo")
  case True
  with zo show ?thesis by (simp add: offsetToInt_def)
next
  case nz: False
  have len: "length (offsetFromInt p) = 20" using assms(1,2) by (rule length_offsetFromInt)
  then have na: "offsetFromInt p \<noteq> ''-1''" by auto
  show ?thesis
  proof (cases "p = 0")
    case True
    have "TrimLeft (offsetFromInt 0) ''0'' = []"
      by (simp add: offsetFromInt_def sprintf_020d_def zero_pad_def decimal_zero
          TrimLeft_def dropWhile_eq_Nil_conv)
    with nz na True show ?thesis by (simp add: offsetToInt_def ParseInt_def)
  next
    case False
    with assms(1) have pos: "0 < nat p" by simp
    have "TrimLeft (offsetFromInt p) ''0'' = decimal (nat p)"
      using assms(1) hd_decimal [OF pos] decimal_nonempty [of "nat p"]
      by (simp add: offsetFromInt_def sprintf_020d_def TrimLeft_zero_pad)
    moreover have "ParseInt (decimal (nat p)) = (int (nat p), None)"
      using assms(2) by (intro ParseInt_decimal) (simp add: nat_less_iff)
    ultimately show ?thesis using nz na assms(1) by (simp add: offsetToInt_def)
  qed
qed

lemma of_char_digit: "is_digit c \<Longrightarrow> (of_char c :: nat) = 48 + digit_val c"
  by (simp add: is_digit_def digit_val_def)

lemma dec_value_Cons: "dec_value 0 (c # cs) = digit_val c * 10 ^ length cs + dec_value 0 cs"
  using dec_value_shift [of "digit_val c" cs] by simp

lemma string_less_digits:
  "length xs = length ys \<Longrightarrow> list_all is_digit xs \<Longrightarrow> list_all is_digit ys \<Longrightarrow>
   dec_value 0 xs < dec_value 0 ys \<Longrightarrow> string_less xs ys"
proof (induction xs ys rule: list_induct2)
  case Nil
  then show ?case by simp
next
  case (Cons x xs y ys)
  let ?P = "(10::nat) ^ length ys"
  from Cons.prems have dx: "is_digit x" and dy: "is_digit y"
    and ax: "list_all is_digit xs" and ay: "list_all is_digit ys" by simp_all
  have vx: "dec_value 0 xs < ?P" using dec_value_bound [OF ax] Cons.hyps by simp
  have vy: "dec_value 0 ys < ?P" using dec_value_bound [OF ay] by simp
  from Cons.prems(3) Cons.hyps
  have lt: "digit_val x * ?P + dec_value 0 xs < digit_val y * ?P + dec_value 0 ys"
    by (simp only: dec_value_Cons)
  have not_gt: "\<not> digit_val y < digit_val x"
  proof
    assume "digit_val y < digit_val x"
    then have "(digit_val y + 1) * ?P \<le> digit_val x * ?P" by (intro mult_le_mono1) simp
    then have "digit_val y * ?P + ?P \<le> digit_val x * ?P + dec_value 0 xs"
      by (simp add: algebra_simps)
    with lt vy show False by simp
  qed
  show ?case
  proof (cases "digit_val x < digit_val y")
    case True
    with dx dy show ?thesis by (simp add: of_char_digit)
  next
    case False
    with not_gt have eq: "digit_val x = digit_val y" by simp
    with lt have "dec_value 0 xs < dec_value 0 ys" by simp
    then have "string_less xs ys" using Cons.IH ax ay by simp
    with eq dx dy show ?thesis by (simp add: of_char_digit)
  qed
qed

lemma dec_value_zeros: "dec_value 0 (replicate k (CHR ''0'')) = 0"
  by (induction k) (simp_all add: digit_val_zero)

lemma dec_value_zero_pad: "dec_value 0 (zero_pad w s) = dec_value 0 s"
  by (simp add: zero_pad_def dec_value_append dec_value_zeros)

lemma digits_zero_pad: "list_all is_digit s \<Longrightarrow> list_all is_digit (zero_pad w s)"
  by (auto simp: zero_pad_def is_digit_zero list_all_iff)

lemma offsetFromInt_nonneg:
  "0 \<le> p \<Longrightarrow> offsetFromInt p = zero_pad 20 (decimal (nat p))"
  by (simp add: offsetFromInt_def sprintf_020d_def)

lemma offsetFromInt_digits: "0 \<le> p \<Longrightarrow> list_all is_digit (offsetFromInt p)"
  by (simp add: offsetFromInt_nonneg digits_zero_pad decimal_digits)

lemma offsetFromInt_value: "0 \<le> p \<Longrightarrow> dec_value 0 (offsetFromInt p) = nat p"
  by (simp add: offsetFromInt_nonneg dec_value_zero_pad dec_value_decimal)

text \<open>
  Claim C2. For byte positions \<open>0 \<le> p1 < p2 < 2^63\<close> the encoding of \<open>p1\<close> is strictly below
  the encoding of \<open>p2\<close> in Go's string order, and both encodings are 20 decimal digits.
\<close>

theorem offset_order:
  assumes "0 \<le> p1" and "p1 < p2" and "p2 < 2 ^ 63"
  shows "string_less (offsetFromInt p1) (offsetFromInt p2)
         \<and> length (offsetFromInt p1) = 20 \<and> length (offsetFromInt p2) = 20
         \<and> list_all is_digit (offsetFromInt p1) \<and> list_all is_digit (offsetFromInt p2)"
proof -
  from assms have p2: "0 \<le> p2" and p1: "p1 < 2 ^ 63" by simp_all
  have l1: "length (offsetFromInt p1) = 20" using assms(1) p1 by (rule length_offsetFromInt)
  have l2: "length (offsetFromInt p2) = 20" using p2 assms(3) by (rule length_offsetFromInt)
  have d1: "list_all is_digit (offsetFromInt p1)" using assms(1) by (rule offsetFromInt_digits)
  have d2: "list_all is_digit (offsetFromInt p2)" using p2 by (rule offsetFromInt_digits)
  have "dec_value 0 (offsetFromInt p1) < dec_value 0 (offsetFromInt p2)"
    using assms(1,2) p2 by (simp add: offsetFromInt_value)
  then have "string_less (offsetFromInt p1) (offsetFromInt p2)"
    using l1 l2 d1 d2 by (intro string_less_digits) simp_all
  with l1 l2 d1 d2 show ?thesis by simp
qed

text \<open>
  The order at 9 and 10, where the unpadded decimal strings would compare the other way.
\<close>

theorem offset_order_witness:
  "(0::int) \<le> 9 \<and> (9::int) < 10 \<and> (10::int) < 2 ^ 63
   \<and> string_less (offsetFromInt 9) (offsetFromInt 10) \<and> length (offsetFromInt 9) = 20"
  using offset_order [of 9 10] by simp

lemma ParseUint_syntax:
  assumes "s = [] \<or> (length (takeWhile is_digit s) < length s \<and>
                      dec_value 0 (takeWhile is_digit s) \<le> maxUint64)"
  shows "ParseUint s = (0, Some ErrSyntax)"
proof (cases "s = []")
  case True
  then show ?thesis by (simp add: ParseUint_def)
next
  case False
  with assms have "parseUint_loop 0 s = (0, Some ErrSyntax)"
    by (subst parseUint_loop_eq) simp_all
  with False show ?thesis by (simp add: ParseUint_def)
qed

lemma ParseInt_syntax:
  assumes "syntax_rejected s"
  shows "fst (ParseInt s) = 0"
proof (cases "s = []")
  case True
  then show ?thesis by (simp add: ParseInt_def)
next
  case False
  have body: "(if hd s = CHR ''+'' \<or> hd s = CHR ''-'' then tl s else s) = strip_sign s"
    using False by (simp add: strip_sign_def)
  have "ParseUint (strip_sign s) = (0, Some ErrSyntax)"
    using assms by (intro ParseUint_syntax) (simp add: syntax_rejected_def)
  with False show ?thesis by (simp add: ParseInt_def body)
qed

text \<open>
  Claim C4, amended. Decoding gives 0 for the sentinel, for its alias \<open>-1\<close>, and for every
  token whose remainder after the leading zeros is rejected by the integer parser with a
  syntax error.
\<close>

theorem offsetToInt_lenient:
  assumes "off = zo \<or> off = ''-1'' \<or> syntax_rejected (TrimLeft off ''0'')"
  shows "offsetToInt zo off = 0"
  using assms by (auto simp: offsetToInt_def ParseInt_syntax)

text \<open>
  A token with a letter after its digits decodes to 0.
\<close>

theorem offsetToInt_lenient_witness:
  "syntax_rejected (TrimLeft ''0012a'' ''0'') \<and> offsetToInt ''-1'' ''0012a'' = 0"
proof -
  have h: "syntax_rejected (TrimLeft ''0012a'' ''0'')"
    by (simp add: syntax_rejected_def strip_sign_def TrimLeft_def is_digit_def digit_val_def
        maxUint64_def)
  with offsetToInt_lenient [of "''0012a''" "''-1''"] show ?thesis by simp
qed

text \<open>
  A token that is not an encoding need not decode to 0: whatever the sentinel is, unless
  it is this very token, the token \<open>5\<close> decodes to 5.
\<close>

lemma offsetToInt_five: "zo \<noteq> ''5'' \<Longrightarrow> offsetToInt zo ''5'' = 5"
  by (simp add: offsetToInt_def TrimLeft_def ParseInt_def ParseUint_def is_digit_def
      digit_val_def maxUint64_def)

text \<open>
  Claim C4 as stated fails: the token \<open>5\<close> is not a 20-digit encoding, and it decodes to
  5, not to 0.
\<close>

theorem offsetToInt_malformed_counterexample:
  "length ''5'' \<noteq> 20 \<and> offsetToInt ''-1'' ''5'' = 5"
  by (simp add: offsetToInt_def TrimLeft_def ParseInt_def ParseUint_def is_digit_def
      digit_val_def maxUint64_def)

text \<open>
  The round trip at positions 42 and 0, with the sentinel taken to be \<open>-1\<close>.
\<close>

theorem offset_roundtrip_witness:
  "(0::int) \<le> 42 \<and> (42::int) < 2 ^ 63 \<and> offsetToInt ''-1'' (offsetFromInt 42) = 42
   \<and> offsetToInt ''-1'' (offsetFromInt 0) = 0"
proof -
  have n: "length (offsetFromInt 42) = 20" "length (offsetFromInt 0) = 20"
    by (simp_all add: length_offsetFromInt)
  then have "offsetFromInt 42 \<noteq> ''-1''" by auto
  then show ?thesis
    using offset_roundtrip [of 42 "''-1''"] offset_roundtrip [of 0 "''-1''"] by simp
qed

section \<open>Properties of the storage\<close>

lemma getPath_fail:
  assumes "fst (getPath fs s streamID) = Inl e"
  shows "getPath fs s streamID = (Inl ErrStreamNotFound, s)"
  using assms
  by (auto simp: getPath_def Let_def split: option.splits list.splits if_splits)

lemma getPath_error_kind:
  "fst (getPath fs s streamID) = Inl e \<Longrightarrow> e = ErrStreamNotFound"
  using getPath_fail [of fs s streamID e] by (cases "getPath fs s streamID") auto

text \<open>
  Claim C10. When the resolution that \<open>Subscribe\<close> performs fails (the lookup of the
  stream id without its leading slash), \<open>Subscribe\<close> returns the stream-not-found error
  and no channel, and the storage it returns is the one it was given: the subscriber
  registry, the channel store and the index are unchanged.
\<close>

theorem Subscribe_unresolved:
  assumes "fst (getPath fs s (TrimPrefix streamID ''/'')) = Inl e"
  shows "Subscribe fs s streamID offset = (Inl ErrStreamNotFound, s)"
  using getPath_fail [OF assms] by (simp add: Subscribe_def)

text \<open>
  Claim C7. \<open>Create\<close>, \<open>Append\<close>, \<open>AppendFrom\<close> and \<open>Delete\<close> return the read-only error
  for every stream id and every argument, and return the storage unchanged: the file index
  and the subscriber registry are as before. The environment is only an input of the
  operations, so no file changes either.
\<close>

theorem mutators_read_only:
  "Create s streamID cfg = ((False, Some ErrReadOnly), s)
   \<and> Append fs s streamID data seq = ((ZeroOffset fs, Some ErrReadOnly), s)
   \<and> AppendFrom fs s streamID r seq = ((ZeroOffset fs, Some ErrReadOnly), s)
   \<and> Delete s streamID = (Some ErrReadOnly, s)"
  by (simp add: Create_def Append_def AppendFrom_def Delete_def)

lemma WalkDir_getPath_fn:
  "WalkDir (getPath_fn sid) found es =
     (case find (regular_named sid) es of None \<Rightarrow> found | Some e \<Rightarrow> path e)"
  by (induction es arbitrary: found) (auto simp: getPath_fn_def regular_named_def)

lemma WalkDir_getPath_fn_stops:
  "regular_named sid e \<Longrightarrow>
   WalkDir (getPath_fn sid) found (e # later) = path e"
  by (simp add: getPath_fn_def regular_named_def)

lemma Base_empty: "Base [] = ''.''"
  by (simp add: Base_def)

lemma regular_named_path: "regular_named sid e \<Longrightarrow> path e \<noteq> []"
  by (auto simp: regular_named_def Base_empty)

text \<open>
  Claim C8. When the stream id is not in the index, the one-level pattern gives no match
  (or is malformed), and the walk of the projects directory meets a regular file named by
  the id plus the extension, \<open>getPath\<close> succeeds, returns the path of the first such entry
  of the walk, whatever the walk would have met later, and stores that path in the index
  under the id.
\<close>

theorem getPath_fallback_walk:
  assumes "sid = TrimPrefix streamID ''/''"
    and "fileIndex s sid = None"
    and "glob fs [projectsDir s, ''**'', sid @ ''.jsonl''] = None
         \<or> glob fs [projectsDir s, ''**'', sid @ ''.jsonl''] = Some []"
    and "walk fs (projectsDir s) = before @ e # later"
    and "regular_named sid e"
    and "\<forall>b \<in> set before. \<not> regular_named sid b"
  shows "getPath fs s streamID = (Inr (path e), s\<lparr>fileIndex := (fileIndex s)(sid \<mapsto> path e)\<rparr>)"
proof -
  have "find (regular_named sid) (before @ e # later) = Some e"
    using assms(5,6) by (induction before) simp_all
  then have w: "WalkDir (getPath_fn sid) [] (walk fs (projectsDir s)) = path e"
    by (simp add: WalkDir_getPath_fn assms(4))
  have ne: "path e \<noteq> []" using assms(5) by (rule regular_named_path)
  from assms(3) show ?thesis
  proof
    assume "glob fs [projectsDir s, ''**'', sid @ ''.jsonl''] = None"
    then show ?thesis using assms(1,2) w ne by (simp add: getPath_def Let_def)
  next
    assume "glob fs [projectsDir s, ''**'', sid @ ''.jsonl''] = Some []"
    then show ?thesis using assms(1,2) w ne by (simp add: getPath_def Let_def)
  qed
qed

lemma Read_loop_empty: "Read_loop limit [] messages currentOffset bytesRead = Inr (messages, currentOffset)"
  by (simp add: Read_loop.simps Scan_def)

text \<open>
  Claim C6, amended. When the stream resolves to a file and the offset token decodes to a
  position at or beyond the size of the file, which the file system accepts as a seek
  position and from which a read of the scanner's first buffer stays within \<open>int64\<close>,
  \<open>Read\<close> returns no message and the offset token it was given as the next offset.
\<close>

theorem Read_at_or_past_end:
  assumes "getPath fs s streamID = (Inr p, s1)"
    and "files fs p = Some contents"
    and "int (length contents) \<le> offsetToInt (ZeroOffset fs) offset"
    and "offsetToInt (ZeroOffset fs) offset \<le> int (seekLimit fs)"
    and "offsetToInt (ZeroOffset fs) offset + int startBufSize \<le> maxInt64"
  shows "Read fs s streamID offset limit =
           (Inr \<lparr>Messages = [], NextOffset = offset,
                 TailOffset = offsetFromInt (int (length contents))\<rparr>, s1)"
proof -
  let ?start = "offsetToInt (ZeroOffset fs) offset"
  from assms(3) have nonneg: "\<not> ?start < 0" by simp
  from assms(3) have "length contents \<le> nat ?start" by simp
  then have "drop (nat ?start) contents = []" by simp
  then show ?thesis
    using assms(1,2,4,5) nonneg by (simp add: Read_def Let_def Read_loop_empty)
qed

lemma upsert_dom: "upsert s s' \<Longrightarrow> dom (fileIndex s) \<subseteq> dom (fileIndex s')"
  by (auto simp: upsert_def)

lemma upsert_refl: "upsert s s"
  by (simp add: upsert_def)

lemma fileIndex_trySend: "fileIndex (trySend tail ch s) = fileIndex s"
  by (simp add: trySend_def split: option.splits)

lemma fileIndex_fold_trySend: "fileIndex (fold (trySend tail) cs s) = fileIndex s"
  by (induction cs arbitrary: s) (simp_all add: fileIndex_trySend)

lemma upsert_getPath: "upsert s (snd (getPath fs s streamID))"
  by (auto simp: getPath_def Let_def upsert_def split: option.splits list.splits)

lemma upsert_watchLoop_event: "upsert s (watchLoop_event fs event s)"
  by (auto simp: watchLoop_event_def Let_def upsert_def fileIndex_fold_trySend)

lemma upsert_Read: "upsert s (snd (Read fs s streamID offset limit))"
  using upsert_getPath [of s fs streamID]
  by (auto simp: Read_def Let_def split: prod.splits sum.splits option.splits)

lemma upsert_Head: "upsert s (snd (Head fs s streamID))"
  using upsert_getPath [of s fs streamID]
  by (auto simp: Head_def split: prod.splits sum.splits option.splits)

lemma fileIndex_Subscribe:
  "fileIndex (snd (Subscribe fs s streamID offset)) =
   fileIndex (snd (getPath fs s (TrimPrefix streamID ''/'')))"
  by (simp add: Subscribe_def Let_def split: prod.splits sum.splits)

lemma upsert_Subscribe: "upsert s (snd (Subscribe fs s streamID offset))"
  using upsert_getPath [of s fs "TrimPrefix streamID ''/''"]
  by (simp add: upsert_def fileIndex_Subscribe)

lemma upsert_unsubscribe: "upsert s (unsubscribe s streamID ch)"
  by (simp add: unsubscribe_def Let_def upsert_def split: option.splits)

lemma upsert_receive: "upsert s (snd (receive s ch))"
  by (simp add: receive_def upsert_def split: option.splits)

lemma upsert_exec: "upsert s (exec fs c s)"
  by (cases c)
     (simp_all add: upsert_Read upsert_Head upsert_Subscribe upsert_getPath
        upsert_unsubscribe upsert_receive upsert_watchLoop_event
        Create_def Append_def AppendFrom_def Delete_def upsert_refl)

lemma dom_run: "dom (fileIndex s) \<subseteq> dom (fileIndex (run steps s))"
proof (induction steps arbitrary: s)
  case Nil
  show ?case by simp
next
  case (Cons step steps)
  obtain fs c where step: "step = (fs, c)" by (cases step)
  have "dom (fileIndex s) \<subseteq> dom (fileIndex (exec fs c s))"
    by (rule upsert_dom [OF upsert_exec])
  also have "\<dots> \<subseteq> dom (fileIndex (run steps (exec fs c s)))" by (rule Cons.IH)
  finally show ?case by (simp add: step)
qed

lemma upsert_indexFiles_fn: "upsert s (fst (indexFiles_fn s e))"
  by (auto simp: indexFiles_fn_def upsert_def)

lemma indexFiles_fn_continues: "snd (indexFiles_fn s e) = False"
  by (simp add: indexFiles_fn_def)

lemma dom_WalkDir_indexFiles:
  "dom (fileIndex s) \<subseteq> dom (fileIndex (WalkDir indexFiles_fn s es))"
proof (induction es arbitrary: s)
  case Nil
  show ?case by simp
next
  case (Cons e es)
  obtain s' where fn: "indexFiles_fn s e = (s', False)"
    using indexFiles_fn_continues [of s e] by (cases "indexFiles_fn s e") simp
  have "dom (fileIndex s) \<subseteq> dom (fileIndex s')"
    using upsert_dom [OF upsert_indexFiles_fn [of s e]] fn by simp
  also have "\<dots> \<subseteq> dom (fileIndex (WalkDir indexFiles_fn s' es))" by (rule Cons.IH)
  finally show ?case by (simp add: fn)
qed

text \<open>
  Claim C9. The index is a map, so a stream id has at most one path. Every step of a
  running storage (an interface call, a watch event, the end of a subscription, a
  receive) and every callback of the initial scan leaves the index as it is or sets one
  entry; so the scan and every run keep all the entries that were there, possibly with a
  new path.
\<close>

theorem index_entries_persist:
  "(fileIndex (exec fs c s) = fileIndex s
      \<or> (\<exists>streamID p. fileIndex (exec fs c s) = (fileIndex s)(streamID \<mapsto> p)))
   \<and> (fileIndex (fst (indexFiles_fn s e)) = fileIndex s
      \<or> (\<exists>streamID p. fileIndex (fst (indexFiles_fn s e)) = (fileIndex s)(streamID \<mapsto> p)))
   \<and> dom (fileIndex s) \<subseteq> dom (fileIndex (indexFiles fs s))
   \<and> dom (fileIndex s) \<subseteq> dom (fileIndex (run steps s))"
  using upsert_exec [of s fs c] upsert_indexFiles_fn [of s e]
  by (simp add: upsert_def dom_run indexFiles_def dom_WalkDir_indexFiles)

lemma TrimPrefix_slash_u1: "TrimPrefix ''/u1'' ''/'' = ''u1''"
  by (simp add: TrimPrefix_def HasPrefix_def)

text \<open>
  The stream file two levels below the projects directory is found by the walk.
\<close>

theorem getPath_fallback_walk_witness:
  "fileIndex demo_storage ''u1'' = None
   \<and> glob demo_fs [projectsDir demo_storage, ''**'', ''u1.jsonl''] = Some []
   \<and> regular_named ''u1'' (WalkEntry ''/c/projects/p/a/u1.jsonl'' False False)
   \<and> getPath demo_fs demo_storage ''/u1'' =
       (Inr ''/c/projects/p/a/u1.jsonl'',
        demo_storage\<lparr>fileIndex := (fileIndex demo_storage)(''u1'' \<mapsto> ''/c/projects/p/a/u1.jsonl'')\<rparr>)"
proof -
  let ?e = "WalkEntry ''/c/projects/p/a/u1.jsonl'' False False"
  let ?before = "[WalkEntry ''/c/projects'' True False, WalkEntry ''/c/projects/p'' True False,
                  WalkEntry ''/c/projects/p/a'' True False]"
  have h1: "''u1'' = TrimPrefix ''/u1'' ''/''" by (simp add: TrimPrefix_slash_u1)
  have h2: "fileIndex demo_storage ''u1'' = None" by (simp add: demo_storage_def)
  have h3: "glob demo_fs [projectsDir demo_storage, ''**'', ''u1'' @ ''.jsonl''] = None
            \<or> glob demo_fs [projectsDir demo_storage, ''**'', ''u1'' @ ''.jsonl''] = Some []"
    by (simp add: demo_fs_def)
  have h4: "walk demo_fs (projectsDir demo_storage) = ?before @ ?e # []"
    by (simp add: demo_fs_def)
  have h5: "regular_named ''u1'' ?e" by (simp add: regular_named_def Base_def)
  have h6: "\<forall>b \<in> set ?before. \<not> regular_named ''u1'' b" by (simp add: regular_named_def)
  from getPath_fallback_walk [OF h1 h2 h3 h4 h5 h6] h2 h3 h5 show ?thesis
    by (simp add: demo_fs_def)
qed

text \<open>
  A stream id that is neither indexed nor found on disk.
\<close>

theorem Subscribe_unresolved_witness:
  "fst (getPath demo_fs demo_storage (TrimPrefix ''/nosuch'' ''/'')) = Inl ErrStreamNotFound
   \<and> Subscribe demo_fs demo_storage ''/nosuch'' ''-1'' = (Inl ErrStreamNotFound, demo_storage)"
proof -
  have h: "fst (getPath demo_fs demo_storage (TrimPrefix ''/nosuch'' ''/'')) = Inl ErrStreamNotFound"
    by (simp add: getPath_def TrimPrefix_def HasPrefix_def demo_fs_def demo_storage_def
        getPath_fn_def Base_def)
  from Subscribe_unresolved [OF h] h show ?thesis by simp
qed

text \<open>
  Reading a six-byte file from position 6.
\<close>

theorem Read_at_or_past_end_witness:
  "getPath demo_fs demo_storage ''u1'' =
     (Inr ''/c/projects/p/a/u1.jsonl'',
      demo_storage\<lparr>fileIndex := (fileIndex demo_storage)(''u1'' \<mapsto> ''/c/projects/p/a/u1.jsonl'')\<rparr>)
   \<and> files demo_fs ''/c/projects/p/a/u1.jsonl'' = Some (''{x:1}'' @ [newline])
   \<and> int (length (''{x:1}'' @ [newline])) \<le> offsetToInt (ZeroOffset demo_fs) ''00000000000000000006''
   \<and> offsetToInt (ZeroOffset demo_fs) ''00000000000000000006'' \<le> int (seekLimit demo_fs)
   \<and> offsetToInt (ZeroOffset demo_fs) ''00000000000000000006'' + int startBufSize \<le> maxInt64
   \<and> Read demo_fs demo_storage ''u1'' ''00000000000000000006'' 1024 =
       (Inr \<lparr>Messages = [], NextOffset = ''00000000000000000006'',
             TailOffset = offsetFromInt 6\<rparr>,
        demo_storage\<lparr>fileIndex := (fileIndex demo_storage)(''u1'' \<mapsto> ''/c/projects/p/a/u1.jsonl'')\<rparr>)"
proof -
  have h1: "getPath demo_fs demo_storage ''u1'' =
     (Inr ''/c/projects/p/a/u1.jsonl'',
      demo_storage\<lparr>fileIndex := (fileIndex demo_storage)(''u1'' \<mapsto> ''/c/projects/p/a/u1.jsonl'')\<rparr>)"
    by (simp add: getPath_def Let_def TrimPrefix_def HasPrefix_def demo_fs_def demo_storage_def
        getPath_fn_def Base_def)
  have h2: "files demo_fs ''/c/projects/p/a/u1.jsonl'' = Some (''{x:1}'' @ [newline])"
    by (simp add: demo_fs_def)
  have z: "ZeroOffset demo_fs = ''-1''" by (simp add: demo_fs_def)
  have lim: "seekLimit demo_fs = 17592186040320" by (simp add: demo_fs_def)
  have dec: "offsetToInt ''-1'' ''00000000000000000006'' = 6"
    by (simp add: offsetToInt_def TrimLeft_def ParseInt_def ParseUint_def is_digit_def
        digit_val_def maxUint64_def)
  have h3: "int (length (''{x:1}'' @ [newline])) \<le> offsetToInt (ZeroOffset demo_fs) ''00000000000000000006''"
    by (simp add: z dec)
  have h4: "offsetToInt (ZeroOffset demo_fs) ''00000000000000000006'' \<le> int (seekLimit demo_fs)"
    by (simp add: z dec lim)
  have h5: "offsetToInt (ZeroOffset demo_fs) ''00000000000000000006'' + int startBufSize \<le> maxInt64"
    by (simp add: z dec startBufSize_def maxInt64_def)
  from Read_at_or_past_end [OF h1 h2 h3 h4 h5, of 1024] h1 h2 h3 h4 h5 show ?thesis by simp
qed

text \<open>
  Claim C6 as stated fails. The token that encodes the largest \<open>int64\<close> decodes to a
  position beyond the six bytes of the file, and \<open>Read\<close> returns an error, not an empty
  result with the token: the seek fails where the file system's limit is lower, and where
  the file system accepts every position the scanner's first read fails.
\<close>

theorem Read_at_or_past_end_counterexample:
  "files demo_fs ''/c/projects/p/a/u1.jsonl'' = Some (''{x:1}'' @ [newline])
   \<and> int (length (''{x:1}'' @ [newline])) \<le> offsetToInt (ZeroOffset demo_fs) ''09223372036854775807''
   \<and> Read demo_fs demo_storage ''u1'' ''09223372036854775807'' 1024 =
       (Inl ErrSeek,
        demo_storage\<lparr>fileIndex := (fileIndex demo_storage)(''u1'' \<mapsto> ''/c/projects/p/a/u1.jsonl'')\<rparr>)
   \<and> Read (demo_fs\<lparr>seekLimit := 9223372036854775807\<rparr>) demo_storage ''u1''
         ''09223372036854775807'' 1024 =
       (Inl ErrScan,
        demo_storage\<lparr>fileIndex := (fileIndex demo_storage)(''u1'' \<mapsto> ''/c/projects/p/a/u1.jsonl'')\<rparr>)"
proof -
  have g: "getPath (demo_fs\<lparr>seekLimit := n\<rparr>) demo_storage ''u1'' =
     (Inr ''/c/projects/p/a/u1.jsonl'',
      demo_storage\<lparr>fileIndex := (fileIndex demo_storage)(''u1'' \<mapsto> ''/c/projects/p/a/u1.jsonl'')\<rparr>)"
    for n
    by (simp add: getPath_def Let_def TrimPrefix_def HasPrefix_def demo_fs_def demo_storage_def
        getPath_fn_def Base_def)
  have same: "demo_fs\<lparr>seekLimit := 17592186040320\<rparr> = demo_fs" by (simp add: demo_fs_def)
  have f: "files demo_fs ''/c/projects/p/a/u1.jsonl'' = Some (''{x:1}'' @ [newline])"
    by (simp add: demo_fs_def)
  have dec: "offsetToInt ''-1'' ''09223372036854775807'' = 9223372036854775807"
    by (simp add: offsetToInt_def TrimLeft_def ParseInt_def ParseUint_def is_digit_def
        digit_val_def maxUint64_def)
  have z: "ZeroOffset demo_fs = ''-1''" by (simp add: demo_fs_def)
  have r: "Read (demo_fs\<lparr>seekLimit := n\<rparr>) demo_storage ''u1'' ''09223372036854775807'' 1024 =
             (if n < 9223372036854775807 then Inl ErrSeek else Inl ErrScan,
              demo_storage\<lparr>fileIndex := (fileIndex demo_storage)(''u1'' \<mapsto> ''/c/projects/p/a/u1.jsonl'')\<rparr>)"
    for n
    by (simp add: Read_def g f z dec Let_def startBufSize_def maxInt64_def)
  from r [of 17592186040320] r [of 9223372036854775807] f z
  show ?thesis by (simp add: same dec)
qed

section \<open>Properties of Read\<close>

lemma raw_lines_Nil: "raw_lines [] = []"
  by (simp add: raw_lines.simps)

lemma raw_lines_Cons:
  "unread \<noteq> [] \<Longrightarrow>
   raw_lines unread =
     takeWhile (\<lambda>c. c \<noteq> newline) unread
     # raw_lines (drop (Suc (length (takeWhile (\<lambda>c. c \<noteq> newline) unread))) unread)"
  by (subst raw_lines.simps) simp

lemma wrap64_id: "- (2 ^ 63) \<le> x \<Longrightarrow> x < 2 ^ 63 \<Longrightarrow> wrap64 x = x"
  by (simp add: wrap64_def)

lemma length_dropCR: "length (dropCR line) \<le> length line"
  by (simp add: dropCR_def)

lemma Scan_line:
  assumes "unread \<noteq> []" and "length (takeWhile (\<lambda>c. c \<noteq> newline) unread) < maxTokenSize"
  shows "Scan unread =
           Token (dropCR (takeWhile (\<lambda>c. c \<noteq> newline) unread))
                 (drop (Suc (length (takeWhile (\<lambda>c. c \<noteq> newline) unread))) unread)"
  using assms by (simp add: Scan_def Let_def)

lemma Read_loop_Token:
  assumes "Scan unread = Token line rest"
  shows "Read_loop limit unread messages cur br =
           (if wrap64 (br + int (length line)) > limit \<and> messages \<noteq> []
            then Inr (messages, cur)
            else Read_loop limit rest
                   (messages @ [\<lparr>Data = line,
                                  Offset = offsetFromInt (wrap64 (cur + wrap64 (int (length line) + 1)))\<rparr>])
                   (wrap64 (cur + wrap64 (int (length line) + 1)))
                   (wrap64 (br + int (length line))))"
  using assms by (subst Read_loop.simps) (simp add: Let_def)

lemma Read_loop_empty2: "Read_loop limit [] messages cur br = Inr (messages, cur)"
  by (simp add: Read_loop.simps Scan_def)

text \<open>
  The loop, when no line is too long and no counter can wrap, takes the lines that
  \<open>count_taken\<close> counts and ends at the position after them.
\<close>

lemma Read_loop_refines:
  assumes "\<forall>l \<in> set (raw_lines unread). length l < maxTokenSize"
    and "0 \<le> cur" and "0 \<le> br"
    and "unread = [] \<or> cur + int (length unread) + 1 < 2 ^ 63"
    and "br + int (length unread) < 2 ^ 63"
  shows "Read_loop limit unread messages cur br =
           Inr (messages @ build cur (take (count_taken limit (messages \<noteq> []) br (scan_lines unread))
                                         (scan_lines unread)),
                cur + payload (take (count_taken limit (messages \<noteq> []) br (scan_lines unread))
                                    (scan_lines unread))
                    + int (count_taken limit (messages \<noteq> []) br (scan_lines unread)))"
  using assms
proof (induction unread arbitrary: messages cur br rule: raw_lines.induct)
  case (1 unread)
  show ?case
  proof (cases "unread = []")
    case True
    then show ?thesis
      by (simp add: Read_loop_empty2 scan_lines_def raw_lines_Nil payload_def)
  next
    case ne: False
    let ?line = "takeWhile (\<lambda>c. c \<noteq> newline) unread"
    let ?tok = "dropCR ?line"
    let ?rest = "drop (Suc (length ?line)) unread"
    have rl: "raw_lines unread = ?line # raw_lines ?rest" using ne by (rule raw_lines_Cons)
    have sl: "scan_lines unread = ?tok # scan_lines ?rest" by (simp add: scan_lines_def rl)
    have short: "length ?line < maxTokenSize" using "1.prems"(1) rl by simp
    have scan: "Scan unread = Token ?tok ?rest" using ne short by (rule Scan_line)
    have len_line: "length ?line \<le> length unread" by (rule length_takeWhile_le)
    have len_tok: "length ?tok \<le> length ?line" by (rule length_dropCR)
    from "1.prems"(4) ne have bound: "cur + int (length unread) + 1 < 2 ^ 63" by simp
    have w1: "wrap64 (int (length ?tok) + 1) = int (length ?tok) + 1"
      using len_tok len_line bound "1.prems"(2) by (intro wrap64_id) simp_all
    have w2: "wrap64 (cur + (int (length ?tok) + 1)) = cur + int (length ?tok) + 1"
      using len_tok len_line bound "1.prems"(2)
      by (subst wrap64_id) simp_all
    have w3: "wrap64 (br + int (length ?tok)) = br + int (length ?tok)"
      using len_tok len_line "1.prems"(3,5) by (intro wrap64_id) simp_all
    show ?thesis
    proof (cases "br + int (length ?tok) > limit \<and> messages \<noteq> []")
      case True
      then show ?thesis
        by (simp add: Read_loop_Token [OF scan] w1 w2 w3 sl payload_def)
    next
      case False
      let ?m = "messages @ [\<lparr>Data = ?tok, Offset = offsetFromInt (cur + int (length ?tok) + 1)\<rparr>]"
      have p1: "\<forall>l \<in> set (raw_lines ?rest). length l < maxTokenSize"
        using "1.prems"(1) rl by simp
      have p2: "0 \<le> cur + int (length ?tok) + 1" using "1.prems"(2) by simp
      have p3: "0 \<le> br + int (length ?tok)" using "1.prems"(3) by simp
      have p4: "?rest = [] \<or> cur + int (length ?tok) + 1 + int (length ?rest) + 1 < 2 ^ 63"
        using len_tok len_line bound by (cases "?rest = []") simp_all
      have p5: "br + int (length ?tok) + int (length ?rest) < 2 ^ 63"
        using len_tok len_line "1.prems"(5) by simp
      have step: "Read_loop limit unread messages cur br =
                  Read_loop limit ?rest ?m (cur + int (length ?tok) + 1) (br + int (length ?tok))"
        using False by (auto simp: Read_loop_Token [OF scan] w1 w2 w3)
      have ih: "Read_loop limit ?rest ?m (cur + int (length ?tok) + 1) (br + int (length ?tok)) =
           Inr (?m @ build (cur + int (length ?tok) + 1)
                       (take (count_taken limit (?m \<noteq> []) (br + int (length ?tok)) (scan_lines ?rest))
                             (scan_lines ?rest)),
                cur + int (length ?tok) + 1
                    + payload (take (count_taken limit (?m \<noteq> []) (br + int (length ?tok)) (scan_lines ?rest))
                                    (scan_lines ?rest))
                    + int (count_taken limit (?m \<noteq> []) (br + int (length ?tok)) (scan_lines ?rest)))"
        using ne p1 p2 p3 p4 p5 by (intro "1.IH") simp_all
      show ?thesis using False by (auto simp: step ih sl payload_def)
    qed
  qed
qed

lemma payload_Nil: "payload [] = 0"
  by (simp add: payload_def)

lemma payload_Cons: "payload (t # ts) = int (length t) + payload ts"
  by (simp add: payload_def)

lemma payload_nonneg: "0 \<le> payload ts"
  by (induction ts) (simp_all add: payload_Nil payload_Cons)


lemma count_taken_le: "count_taken limit some br ts \<le> length ts"
  by (induction ts arbitrary: some br) simp_all




lemma count_taken_all:
  "br + payload ts \<le> limit \<Longrightarrow> count_taken limit some br ts = length ts"
proof (induction ts arbitrary: some br)
  case Nil
  show ?case by simp
next
  case (Cons t ts)
  have "0 \<le> payload ts" by (rule payload_nonneg)
  with Cons.prems have fit: "\<not> br + int (length t) > limit" by (simp add: payload_Cons)
  from Cons.prems have "br + int (length t) + payload ts \<le> limit" by (simp add: payload_Cons)
  then have "count_taken limit True (br + int (length t)) ts = length ts" by (rule Cons.IH)
  with fit show ?case by simp
qed


lemma length_build: "length (build cur ts) = length ts"
  by (induction ts arbitrary: cur) simp_all

lemma build_nth:
  "i < length ts \<Longrightarrow>
   build cur ts ! i =
     \<lparr>Data = ts ! i, Offset = offsetFromInt (cur + payload (take (Suc i) ts) + int (Suc i))\<rparr>"
proof (induction ts arbitrary: cur i)
  case Nil
  then show ?case by simp
next
  case (Cons t ts)
  show ?case
  proof (cases i)
    case 0
    then show ?thesis by (simp add: payload_Cons payload_Nil)
  next
    case (Suc i')
    with Cons.prems have "i' < length ts" by simp
    from Cons.IH [OF this, of "cur + int (length t) + 1"] Suc show ?thesis
      by (simp add: payload_Cons algebra_simps)
  qed
qed

lemma takeWhile_line: "newline \<notin> set r \<Longrightarrow> takeWhile (\<lambda>c. c \<noteq> newline) (r @ newline # rest) = r"
  by (induction r) auto

lemma file_of_Cons: "file_of (r # rs) = r @ newline # file_of rs"
  by (simp add: file_of_def)

lemma raw_lines_file_of: "\<forall>r \<in> set rs. newline \<notin> set r \<Longrightarrow> raw_lines (file_of rs) = rs"
proof (induction rs)
  case Nil
  show ?case by (simp add: file_of_def raw_lines_Nil)
next
  case (Cons r rs)
  then have r: "newline \<notin> set r" and ih: "raw_lines (file_of rs) = rs" by simp_all
  have "raw_lines (r @ newline # file_of rs) =
          takeWhile (\<lambda>c. c \<noteq> newline) (r @ newline # file_of rs)
          # raw_lines (drop (Suc (length (takeWhile (\<lambda>c. c \<noteq> newline) (r @ newline # file_of rs))))
                        (r @ newline # file_of rs))"
    by (rule raw_lines_Cons) simp
  then show ?case by (simp add: file_of_Cons takeWhile_line [OF r] ih)
qed

lemma dropCR_id: "r = [] \<or> last r \<noteq> carriageReturn \<Longrightarrow> dropCR r = r"
  by (auto simp: dropCR_def)

lemma length_file_of: "int (length (file_of rs)) = payload rs + int (length rs)"
  by (induction rs) (simp_all add: file_of_def payload_Nil payload_Cons)

lemma Read_result:
  assumes "getPath fs s streamID = (Inr p, s1)"
    and "files fs p = Some contents"
    and "int (length contents) < 2 ^ 63 - 1"
    and "start = offsetToInt (ZeroOffset fs) offset" and "0 \<le> start"
    and "\<forall>l \<in> set (raw_lines (drop (nat start) contents)). length l < maxTokenSize"
    and "lines = scan_lines (drop (nat start) contents)"
    and "k = count_taken limit False 0 lines"
    and "start \<le> int (seekLimit fs)"
    and "start + int startBufSize \<le> maxInt64"
  shows "Read fs s streamID offset limit =
           (Inr \<lparr>Messages = build start (take k lines),
                 NextOffset = (if k = 0 then offset
                               else offsetFromInt (start + payload (take k lines) + int k)),
                 TailOffset = offsetFromInt (int (length contents))\<rparr>, s1)"
proof -
  let ?unread = "drop (nat start) contents"
  have b1: "?unread = [] \<or> start + int (length ?unread) + 1 < 2 ^ 63"
    using assms(3,5) by (cases "nat start < length contents") auto
  have b2: "0 + int (length ?unread) < 2 ^ 63" using assms(3) by simp
  have loop: "Read_loop limit ?unread [] start 0 =
                Inr ([] @ build start (take k lines), start + payload (take k lines) + int k)"
    using Read_loop_refines [OF assms(6,5) _ b1 b2, of limit "[]"] assms(7,8) by simp
  have len: "length (build start (take k lines)) = k"
    using count_taken_le [of limit False 0 lines] assms(8) by (simp add: length_build)
  from len have emp: "build start (take k lines) = [] \<longleftrightarrow> k = 0" by auto
  show ?thesis
    using assms(1,2,5,9,10) loop
    by (simp add: Read_def Let_def emp flip: assms(4))
qed


text \<open>
  Claim C5, amended. Let the file consist exactly of the records \<open>rs\<close>, at least one, each
  followed by a newline, each shorter than the scanner's limit and none ending in a
  carriage return. Reading it from an offset that decodes to 0 with a limit of at least
  the payload returns one message per record, the \<open>i\<close>-th with the record as data and with
  the encoded position just after that record's newline, and the next offset is the
  encoded size of the file.
\<close>

theorem Read_all_records:
  assumes "getPath fs s streamID = (Inr p, s1)"
    and "files fs p = Some (file_of rs)"
    and "rs \<noteq> []"
    and "\<forall>r \<in> set rs. newline \<notin> set r \<and> length r < maxTokenSize
                        \<and> (r = [] \<or> last r \<noteq> carriageReturn)"
    and "int (length (file_of rs)) < 2 ^ 63 - 1"
    and "offsetToInt (ZeroOffset fs) offset = 0"
    and "payload rs \<le> limit"
  shows "Read fs s streamID offset limit =
           (Inr \<lparr>Messages =
                   map (\<lambda>i. \<lparr>Data = rs ! i,
                              Offset = offsetFromInt (int (length (file_of (take (Suc i) rs))))\<rparr>)
                       [0..<length rs],
                 NextOffset = offsetFromInt (int (length (file_of rs))),
                 TailOffset = offsetFromInt (int (length (file_of rs)))\<rparr>, s1)"
proof -
  have nl: "\<forall>r \<in> set rs. newline \<notin> set r" using assms(4) by simp
  have raw: "raw_lines (file_of rs) = rs" using nl by (rule raw_lines_file_of)
  have "map dropCR rs = rs"
    using assms(4) by (intro map_idI) (simp add: dropCR_id)
  then have lines: "rs = scan_lines (drop (nat 0) (file_of rs))" by (simp add: scan_lines_def raw)
  have short: "\<forall>l \<in> set (raw_lines (drop (nat 0) (file_of rs))). length l < maxTokenSize"
    using assms(4) by (simp add: raw)
  have k: "length rs = count_taken limit False 0 rs"
    using assms(7) by (simp add: count_taken_all)
  have msgs: "build 0 rs =
                map (\<lambda>i. \<lparr>Data = rs ! i,
                           Offset = offsetFromInt (int (length (file_of (take (Suc i) rs))))\<rparr>)
                    [0..<length rs]"
    by (rule nth_equalityI) (simp_all add: length_build build_nth length_file_of)
  have "Read fs s streamID offset limit =
          (Inr \<lparr>Messages = build 0 (take (length rs) rs),
                NextOffset = (if length rs = 0 then offset
                              else offsetFromInt (0 + payload (take (length rs) rs) + int (length rs))),
                TailOffset = offsetFromInt (int (length (file_of rs)))\<rparr>, s1)"
    using assms(1,2,5) assms(6) [symmetric] _ short lines k
    by (rule Read_result) (simp_all add: startBufSize_def maxInt64_def)
  then show ?thesis using assms(3) by (simp add: msgs length_file_of)
qed

lemma newline_big_record: "newline \<notin> set big_record"
  by (simp add: big_record_def newline_def)

lemma length_big_record: "length big_record = maxTokenSize"
  by (simp add: big_record_def)

lemma Scan_big_record: "Scan (big_record @ newline # rest) = TooLong"
  by (simp add: Scan_def Let_def takeWhile_line [OF newline_big_record] length_big_record)


lemma getPath_history: "getPath fs demo_storage ''_history'' = (Inr ''/c/history.jsonl'', demo_storage)"
  by (simp add: getPath_def TrimPrefix_def HasPrefix_def demo_storage_def)

lemma offsetToInt_alias: "offsetToInt zo ''-1'' = 0"
  by (simp add: offsetToInt_def)

text \<open>
  Claim C5 as stated fails. The file consists exactly of one record, as long as the
  scanner's limit; reading it from offset 0 with a budget that covers the record returns
  the scan error and no message.
\<close>

theorem Read_all_records_counterexample:
  "files long_line_fs ''/c/history.jsonl'' = Some (file_of [big_record])
   \<and> newline \<notin> set big_record
   \<and> offsetToInt (ZeroOffset long_line_fs) ''-1'' = 0
   \<and> payload [big_record] \<le> int maxTokenSize
   \<and> Read long_line_fs demo_storage ''_history'' ''-1'' (int maxTokenSize) = (Inl ErrScan, demo_storage)"
proof -
  have f: "files long_line_fs ''/c/history.jsonl'' = Some (file_of [big_record])"
    by (simp add: long_line_fs_def)
  have loop: "Read_loop limit (file_of [big_record]) [] 0 0 = Inl ErrScan" for limit
    by (subst Read_loop.simps) (simp add: file_of_def Scan_big_record)
  have "Read long_line_fs demo_storage ''_history'' ''-1'' (int maxTokenSize) = (Inl ErrScan, demo_storage)"
    by (simp add: Read_def getPath_history f offsetToInt_alias loop)
  then show ?thesis
    using f newline_big_record
    by (simp add: offsetToInt_alias payload_def length_big_record)
qed


text \<open>
  Three records read from the start with a generous limit.
\<close>

theorem Read_all_records_witness:
  "getPath three_fs demo_storage ''_history'' = (Inr ''/c/history.jsonl'', demo_storage)
   \<and> files three_fs ''/c/history.jsonl'' = Some (file_of [''{x:1}'', ''{y:22}'', ''{z:333}''])
   \<and> list_all (\<lambda>r. newline \<notin> set r \<and> length r < maxTokenSize \<and> last r \<noteq> carriageReturn)
         [''{x:1}'', ''{y:22}'', ''{z:333}'']
   \<and> int (length (file_of [''{x:1}'', ''{y:22}'', ''{z:333}''])) < 2 ^ 63 - 1
   \<and> offsetToInt (ZeroOffset three_fs) ''-1'' = 0
   \<and> payload [''{x:1}'', ''{y:22}'', ''{z:333}''] \<le> 1024
   \<and> Read three_fs demo_storage ''_history'' ''-1'' 1024 =
       (Inr \<lparr>Messages = [\<lparr>Data = ''{x:1}'', Offset = offsetFromInt 6\<rparr>,
                           \<lparr>Data = ''{y:22}'', Offset = offsetFromInt 13\<rparr>,
                           \<lparr>Data = ''{z:333}'', Offset = offsetFromInt 21\<rparr>],
             NextOffset = offsetFromInt 21, TailOffset = offsetFromInt 21\<rparr>, demo_storage)"
proof -
  let ?rs = "[''{x:1}'', ''{y:22}'', ''{z:333}'']"
  have h1: "getPath three_fs demo_storage ''_history'' = (Inr ''/c/history.jsonl'', demo_storage)"
    by (rule getPath_history)
  have h2: "files three_fs ''/c/history.jsonl'' = Some (file_of ?rs)" by (simp add: three_fs_def)
  have h3: "?rs \<noteq> []" by simp
  have h4: "\<forall>r \<in> set ?rs. newline \<notin> set r \<and> length r < maxTokenSize
                           \<and> (r = [] \<or> last r \<noteq> carriageReturn)"
    by (simp add: newline_def carriageReturn_def maxTokenSize_def)
  have h5: "int (length (file_of ?rs)) < 2 ^ 63 - 1" by (simp add: file_of_def)
  have h6: "offsetToInt (ZeroOffset three_fs) ''-1'' = 0" by (rule offsetToInt_alias)
  have h7: "payload ?rs \<le> 1024" by (simp add: payload_def)
  have upt3: "[0..<length ?rs] = [0, 1, 2]" by (simp add: upt_rec)
  from Read_all_records [OF h1 h2 h3 h4 h5 h6 h7] h1 h2 h4 h5 h6 h7 show ?thesis
    by (simp add: upt3 file_of_def list_all_iff)
qed


text \<open>
  Records that end in a carriage return lose it in the message data, and the offsets count
  one byte too few for each: in this file of 6 bytes the two messages carry 2 and 4, and
  the next offset is 4.
\<close>

lemma Read_crlf_offsets:
  "length (file_of [[CHR ''a'', carriageReturn], [CHR ''b'', carriageReturn]]) = 6
   \<and> Read crlf_fs demo_storage ''_history'' ''-1'' 1024 =
       (Inr \<lparr>Messages = [\<lparr>Data = ''a'', Offset = offsetFromInt 2\<rparr>,
                           \<lparr>Data = ''b'', Offset = offsetFromInt 4\<rparr>],
             NextOffset = offsetFromInt 4, TailOffset = offsetFromInt 6\<rparr>, demo_storage)"
  by (simp add: Read_def getPath_history crlf_fs_def offsetToInt_alias file_of_def
      Read_loop.simps Scan_def Let_def dropCR_def newline_def carriageReturn_def
      wrap64_def maxTokenSize_def startBufSize_def maxInt64_def)

end
